theory Spec2Isabelle
  imports Main
begin

section \<open>The ordered store: \<open>std::map<K,V>\<close>\<close>

text \<open>
  The class \<open>std::threadsafe::map<K,V>\<close> of \<open>include/map-threadsafe.hpp\<close> wraps one
  \<open>std::map<K,V> internal_map\<close> and one \<open>std::shared_mutex mutex\<close>.

  The standard container is represented by its in-order sequence of entries: a list
  of (key, value) pairs. The class invariant of \<open>std::map\<close> (keys strictly ascending,
  hence unique) is the predicate \<open>ordered\<close>; it is never built into a definition, and
  a theorem that needs it says so. An iterator is a position in that sequence:
  \<open>begin()\<close> is 0, \<open>end()\<close> is the length, \<open>it++\<close> is the successor.
\<close>

type_synonym ('k, 'v) std_map = "('k \<times> 'v) list"

definition ordered :: "('k::linorder, 'v) std_map \<Rightarrow> bool" where
  "ordered m = sorted_wrt (<) (map fst m)"

definition keys :: "('k, 'v) std_map \<Rightarrow> 'k set" where
  "keys m = fst ` set m"

definition map_begin :: "('k, 'v) std_map \<Rightarrow> nat" where
  "map_begin m = 0"

definition map_end :: "('k, 'v) std_map \<Rightarrow> nat" where
  "map_end m = length m"

definition map_empty :: "('k, 'v) std_map \<Rightarrow> bool" where
  "map_empty m = (m = [])"

definition map_size :: "('k, 'v) std_map \<Rightarrow> nat" where
  "map_size m = length m"

text \<open>\<open>find(key)\<close>: the position of the entry with that key, \<open>end()\<close> when there is none.\<close>

fun map_find :: "'k \<Rightarrow> ('k, 'v) std_map \<Rightarrow> nat" where
  "map_find key [] = 0"
| "map_find key (e # m) = (if fst e = key then 0 else Suc (map_find key m))"

text \<open>\<open>it->second\<close>, \<open>it->second = v\<close> and \<open>erase(it)\<close> for a dereferenceable iterator.\<close>

definition second :: "('k, 'v) std_map \<Rightarrow> nat \<Rightarrow> 'v" where
  "second m it = snd (m ! it)"

definition set_second :: "('k, 'v) std_map \<Rightarrow> nat \<Rightarrow> 'v \<Rightarrow> ('k, 'v) std_map" where
  "set_second m it v = m[it := (fst (m ! it), v)]"

definition map_erase_at :: "nat \<Rightarrow> ('k, 'v) std_map \<Rightarrow> ('k, 'v) std_map" where
  "map_erase_at it m = take it m @ drop (Suc it) m"

text \<open>\<open>rbegin()\<close> of a non-empty map designates the last entry.\<close>

definition map_rbegin :: "('k, 'v) std_map \<Rightarrow> nat" where
  "map_rbegin m = length m - 1"

text \<open>\<open>erase(key)\<close>: removes the entry if there is one, returns the number removed.\<close>

definition map_erase_key :: "'k \<Rightarrow> ('k, 'v) std_map \<Rightarrow> nat \<times> ('k, 'v) std_map" where
  "map_erase_key key m =
     (let it = map_find key m
      in if it = map_end m then (0, m) else (1, map_erase_at it m))"

text \<open>
  \<open>insert(pair)\<close>: nothing happens when the key is there already; otherwise the pair
  is put at its place in key order. The second component of the standard's result
  (inserted or not) is returned with the new container.
\<close>

fun place :: "('k::linorder) \<times> 'v \<Rightarrow> ('k, 'v) std_map \<Rightarrow> ('k, 'v) std_map" where
  "place p [] = [p]"
| "place p (e # m) = (if fst p < fst e then p # e # m else e # place p m)"

definition map_insert :: "('k::linorder) \<times> 'v \<Rightarrow> ('k, 'v) std_map \<Rightarrow> bool \<times> ('k, 'v) std_map" where
  "map_insert p m =
     (if map_find (fst p) m = map_end m then (True, place p m) else (False, m))"

section \<open>The lock: \<open>std::shared_mutex\<close>\<close>

text \<open>
  \<open>std::shared_lock\<close> takes the mutex in shared mode, \<open>std::unique_lock\<close> in exclusive
  mode. The mutex counts its shared holders and knows whether it is held exclusively.
  \<open>acquire\<close> is \<open>None\<close> where the calling thread would have to wait.
\<close>

datatype lock_mode = shared_lock | unique_lock

record shared_mutex =
  readers :: nat
  writer :: bool

definition free_mutex :: shared_mutex where
  "free_mutex = \<lparr>readers = 0, writer = False\<rparr>"

fun acquire :: "lock_mode \<Rightarrow> shared_mutex \<Rightarrow> shared_mutex option" where
  "acquire shared_lock mu =
     (if writer mu then None else Some (mu\<lparr>readers := Suc (readers mu)\<rparr>))"
| "acquire unique_lock mu =
     (if writer mu \<or> readers mu \<noteq> 0 then None else Some (mu\<lparr>writer := True\<rparr>))"

fun release :: "lock_mode \<Rightarrow> shared_mutex \<Rightarrow> shared_mutex" where
  "release shared_lock mu = mu\<lparr>readers := readers mu - 1\<rparr>"
| "release unique_lock mu = mu\<lparr>writer := False\<rparr>"

section \<open>The class \<open>std::threadsafe::map<K,V>\<close>\<close>

text \<open>
  Every member function first constructs a lock guard on \<open>mutex\<close> and then works on
  \<open>internal_map\<close>; the guard releases the mutex on return. A member function is
  therefore a lock mode together with its critical section, a function from the
  container to the returned value and the container afterwards. A reference
  parameter written by the function (\<open>V& output\<close>) is passed in with the caller's
  value and returned with the result.
\<close>

datatype ('m, 'r) member = Member (lock: lock_mode) (body: "'m \<Rightarrow> 'r \<times> 'm")

record ('k, 'v) tsmap =
  internal_map :: "('k, 'v) std_map"
  mutex :: shared_mutex

text \<open>A call: take the lock (or wait: \<open>None\<close>), run the critical section, release.\<close>

definition invoke :: "(('k, 'v) std_map, 'r) member \<Rightarrow> ('k, 'v) tsmap \<Rightarrow> ('r \<times> ('k, 'v) tsmap) option" where
  "invoke f t =
     (case acquire (lock f) (mutex t) of
        None \<Rightarrow> None
      | Some mu \<Rightarrow>
          (let (r, m') = body f (internal_map t)
           in Some (r, \<lparr>internal_map = m', mutex = release (lock f) mu\<rparr>)))"

definition get :: "'k \<Rightarrow> 'v \<Rightarrow> (('k, 'v) std_map, bool \<times> 'v) member" where
  "get key output = Member shared_lock (\<lambda>m.
     (let it = map_find key m
      in if it = map_end m then ((False, output), m)
         else ((True, second m it), m)))"

definition getTail :: "'v \<Rightarrow> (('k, 'v) std_map, bool \<times> 'v) member" where
  "getTail output = Member shared_lock (\<lambda>m.
     if \<not> map_empty m then ((True, second m (map_rbegin m)), m)
     else ((False, output), m))"

definition getHead :: "'v \<Rightarrow> (('k, 'v) std_map, bool \<times> 'v) member" where
  "getHead output = Member shared_lock (\<lambda>m.
     if \<not> map_empty m then ((True, second m (map_begin m)), m)
     else ((False, output), m))"

definition getAndEraseHead :: "'v \<Rightarrow> (('k, 'v) std_map, bool \<times> 'v) member" where
  "getAndEraseHead output = Member shared_lock (\<lambda>m.
     if \<not> map_empty m then
       (let iter = map_begin m;
            output' = second m iter
        in ((True, output'), map_erase_at iter m))
     else ((False, output), m))"

definition eraseHead :: "(('k, 'v) std_map, bool) member" where
  "eraseHead = Member shared_lock (\<lambda>m.
     if \<not> map_empty m then
       (let iter = map_begin m
        in (True, map_erase_at iter m))
     else (False, m))"

definition insert_ts :: "('k::linorder) \<Rightarrow> 'v \<Rightarrow> (('k, 'v) std_map, bool) member" where
  "insert_ts key val = Member unique_lock (\<lambda>m. map_insert (key, val) m)"

definition erase :: "'k \<Rightarrow> (('k, 'v) std_map, nat) member" where
  "erase key = Member unique_lock (\<lambda>m. map_erase_key key m)"

definition size_ts :: "(('k, 'v) std_map, nat) member" where
  "size_ts = Member shared_lock (\<lambda>m. (map_size m, m))"

definition empty_ts :: "(('k, 'v) std_map, bool) member" where
  "empty_ts = Member shared_lock (\<lambda>m. (map_empty m, m))"

definition contains :: "'k \<Rightarrow> (('k, 'v) std_map, bool) member" where
  "contains key = Member shared_lock (\<lambda>m.
     (let it = map_find key m
      in (it = map_end m, m)))"

definition clear :: "(('k, 'v) std_map, unit) member" where
  "clear = Member unique_lock (\<lambda>m. ((), []))"

definition putIfAbsent :: "('k::linorder) \<Rightarrow> 'v \<Rightarrow> (('k, 'v) std_map, 'v) member" where
  "putIfAbsent key val = Member unique_lock (\<lambda>m.
     (let it = map_find key m
      in if it = map_end m then (val, snd (map_insert (key, val) m))
         else (second m it, m)))"

text \<open>
  \<open>getValues(begin, end)\<close>: the destination is a buffer \<open>buf\<close> with the two iterators
  as positions in it. The loop runs while \<open>begin != end && it != internal_map.end()\<close>;
  each round writes \<open>*begin = *it\<close> and advances both. The tests are the source's
  inequalities, so the loop is a partial function: \<open>None\<close> stands for not returning.
  A write outside the buffer is undefined behaviour in the source; the theorems
  about this function take a range that lies inside the buffer.
\<close>

partial_function (option) getValues_loop ::
  "('k, 'v) std_map \<Rightarrow> nat \<Rightarrow> ('k \<times> 'v) list \<Rightarrow> nat \<Rightarrow> nat \<Rightarrow> (('k \<times> 'v) list \<times> nat) option" where
  "getValues_loop m it buf dbegin dend =
     (if dbegin \<noteq> dend \<and> it \<noteq> map_end m
      then getValues_loop m (Suc it) (buf[dbegin := m ! it]) (Suc dbegin) dend
      else Some (buf, dbegin))"

definition getValues ::
  "('k \<times> 'v) list \<Rightarrow> nat \<Rightarrow> nat \<Rightarrow> (('k, 'v) std_map, (('k \<times> 'v) list \<times> nat) option) member" where
  "getValues buf dbegin dend = Member shared_lock (\<lambda>m.
     (getValues_loop m (map_begin m) buf dbegin dend, m))"

definition remove_ts :: "'k \<Rightarrow> 'v \<Rightarrow> (('k, 'v) std_map, bool) member" where
  "remove_ts key val = Member unique_lock (\<lambda>m.
     (let it = map_find key m
      in if it = map_end m \<or> second m it \<noteq> val then (False, m)
         else (True, map_erase_at it m)))"

definition replace2 :: "'k \<Rightarrow> 'v \<Rightarrow> (('k, 'v) std_map, bool) member" where
  "replace2 key val = Member unique_lock (\<lambda>m.
     (let it = map_find key m
      in if it \<noteq> map_end m then (True, set_second m it val)
         else (False, m)))"

definition insertOrReplace2 :: "('k::linorder) \<Rightarrow> 'v \<Rightarrow> (('k, 'v) std_map, bool) member" where
  "insertOrReplace2 key val = Member unique_lock (\<lambda>m.
     (let it = map_find key m
      in if it \<noteq> map_end m then (False, set_second m it val)
         else map_insert (key, val) m))"

text \<open>
  The overload of \<open>insertOrReplace\<close> with \<open>oldValue\<close> takes \<open>newValue\<close> and \<open>oldValue\<close> by
  reference, writes \<open>oldValue = it->second\<close> and only then reads \<open>newValue\<close> for
  \<open>it->second = newValue\<close>. Nothing keeps a caller from passing one variable for both,
  so here the caller's variables are a store \<open>vars\<close> from references to values and the
  two parameters are references into it; the store afterwards is returned with the
  result. In the other member functions no reference parameter is read after one has
  been written, and they take the values.
\<close>

definition insertOrReplace3 ::
  "('k::linorder) \<Rightarrow> 'r \<Rightarrow> 'r \<Rightarrow> ('r \<Rightarrow> 'v) \<Rightarrow> (('k, 'v) std_map, bool \<times> ('r \<Rightarrow> 'v)) member" where
  "insertOrReplace3 key newValue oldValue vars = Member unique_lock (\<lambda>m.
     (let it = map_find key m
      in if it \<noteq> map_end m then
           (let vars' = vars(oldValue := second m it)
            in ((False, vars'), set_second m it (vars' newValue)))
         else (let (r, m') = map_insert (key, vars newValue) m in ((r, vars), m'))))"

definition replace3 :: "'k \<Rightarrow> 'v \<Rightarrow> 'v \<Rightarrow> (('k, 'v) std_map, bool) member" where
  "replace3 key oldValue newValue = Member unique_lock (\<lambda>m.
     (let it = map_find key m
      in if it \<noteq> map_end m \<and> second m it = oldValue then (True, set_second m it newValue)
         else (False, m)))"

section \<open>Facts about the store\<close>

lemma map_find_le: "map_find k m \<le> length m"
  by (induction m) auto

lemma map_find_end_iff: "map_find k m = length m \<longleftrightarrow> k \<notin> keys m"
  by (induction m) (auto simp: keys_def)

lemma map_find_absent: "map_of m k = None \<longleftrightarrow> map_find k m = length m"
  by (induction m) auto

lemma map_find_present:
  "map_find k m \<noteq> length m \<Longrightarrow> map_of m k = Some (snd (m ! map_find k m))"
  by (induction m) auto

lemma map_find_key: "map_find k m \<noteq> length m \<Longrightarrow> fst (m ! map_find k m) = k"
  by (induction m) auto

lemma keys_Nil: "keys [] = {}"
  by (simp add: keys_def)

lemma keys_Cons: "keys (e # m) = insert (fst e) (keys m)"
  by (simp add: keys_def)

lemma keys_map_of: "k \<in> keys m \<longleftrightarrow> map_of m k \<noteq> None"
  using map_find_absent [of m k] map_find_end_iff [of k m] by simp

lemma found_iff: "map_find k m \<noteq> length m \<longleftrightarrow> (\<exists>w. map_of m k = Some w)"
  using map_find_absent [of m k] by auto

lemma found_value:
  "map_find k m \<noteq> length m \<and> second m (map_find k m) = w \<longleftrightarrow> map_of m k = Some w"
  using map_find_present [of k m] map_find_absent [of m k]
  by (auto simp: second_def)

lemma map_of_place:
  "k \<notin> keys m \<Longrightarrow> map_of (place (k, v) m) = (map_of m)(k \<mapsto> v)"
proof (induction m)
  case Nil
  show ?case by simp
next
  case (Cons e m)
  from Cons.prems have ne: "fst e \<noteq> k" and notin: "k \<notin> keys m"
    by (auto simp: keys_Cons)
  show ?case
  proof (cases "k < fst e")
    case True
    then show ?thesis by (cases e) (auto simp: fun_eq_iff)
  next
    case False
    with Cons.IH [OF notin] ne show ?thesis
      by (cases e) (auto simp: fun_upd_twist)
  qed
qed

lemma set_place: "set (place p m) = insert p (set m)"
  by (induction m) auto

lemma length_place: "length (place p m) = Suc (length m)"
  by (induction m) auto

lemma keys_place: "keys (place p m) = insert (fst p) (keys m)"
  by (simp add: keys_def set_place)

lemma ordered_place:
  "ordered m \<Longrightarrow> fst p \<notin> keys m \<Longrightarrow> ordered (place p m)"
proof (induction m)
  case Nil
  show ?case by (simp add: ordered_def)
next
  case (Cons e m)
  from Cons.prems have om: "ordered m" and notin: "fst p \<notin> keys m" and ne: "fst p \<noteq> fst e"
    and below: "\<forall>x\<in>set m. fst e < fst x"
    by (auto simp: ordered_def keys_Cons)
  show ?case
  proof (cases "fst p < fst e")
    case True
    with Cons.prems show ?thesis by (auto simp: ordered_def)
  next
    case False
    with ne have "fst e < fst p" by simp
    with Cons.IH [OF om notin] below show ?thesis
      by (auto simp: ordered_def set_place)
  qed
qed

lemma map_of_set_second:
  "map_find k m \<noteq> length m \<Longrightarrow>
   map_of (set_second m (map_find k m) v) = (map_of m)(k \<mapsto> v)"
proof (induction m)
  case Nil
  then show ?case by simp
next
  case (Cons e m)
  show ?case
  proof (cases "fst e = k")
    case True
    then show ?thesis by (cases e) (auto simp: set_second_def)
  next
    case False
    with Cons.prems have "map_find k m \<noteq> length m" by simp
    from Cons.IH [OF this] False show ?thesis
      by (cases e) (auto simp: set_second_def)
  qed
qed

lemma map_fst_set_second: "map fst (set_second m it v) = map fst m"
proof (cases "it < length m")
  case True
  then show ?thesis
    by (simp add: set_second_def map_update list_update_same_conv)
next
  case False
  then show ?thesis by (simp add: set_second_def list_update_beyond)
qed


lemma ordered_distinct: "ordered m \<Longrightarrow> distinct (map fst m)"
  unfolding ordered_def by (simp add: strict_sorted_iff)

lemma map_of_erase_at:
  "distinct (map fst m) \<Longrightarrow> map_find k m \<noteq> length m \<Longrightarrow>
   map_of (map_erase_at (map_find k m) m) = (map_of m)(k := None)"
proof (induction m)
  case Nil
  then show ?case by simp
next
  case (Cons e m)
  show ?case
  proof (cases "fst e = k")
    case True
    with Cons.prems have "k \<notin> fst ` set m" by auto
    then have "map_of m k = None" by (simp add: map_of_eq_None_iff)
    with True show ?thesis
      by (cases e) (auto simp: map_erase_at_def)
  next
    case False
    with Cons.prems have a: "map_find k m \<noteq> length m" and d: "distinct (map fst m)" by simp_all
    from Cons.IH [OF d a] False show ?thesis
      by (cases e) (auto simp: map_erase_at_def)
  qed
qed

lemma sorted_wrt_erase_at:
  "sorted_wrt P xs \<Longrightarrow> sorted_wrt P (take n xs @ drop (Suc n) xs)"
proof (induction xs arbitrary: n)
  case Nil
  show ?case by simp
next
  case (Cons x xs)
  show ?case
  proof (cases n)
    case 0
    with Cons.prems show ?thesis by simp
  next
    case (Suc j)
    from Cons.prems have "sorted_wrt P xs" and all: "\<forall>y\<in>set xs. P x y" by simp_all
    from Cons.IH [OF this(1), of j] all Suc show ?thesis
      by (auto simp: sorted_wrt_append dest: in_set_takeD in_set_dropD)
  qed
qed

lemma ordered_erase_at: "ordered m \<Longrightarrow> ordered (map_erase_at it m)"
  unfolding ordered_def map_erase_at_def
  using sorted_wrt_erase_at [of "(<)" "map fst m" it]
  by (simp add: take_map drop_map)

lemma ordered_take: "ordered m \<Longrightarrow> ordered (take n m)"
  unfolding ordered_def by (simp add: take_map [symmetric] sorted_wrt_take)

lemma head_is_Min:
  "ordered m \<Longrightarrow> m \<noteq> [] \<Longrightarrow> fst (m ! 0) = Min (keys m)"
proof (cases m)
  case Nil
  assume "m \<noteq> []"
  with Nil show ?thesis by simp
next
  case (Cons e m')
  assume "ordered m"
  with Cons have "\<forall>x\<in>keys m'. fst e < x"
    by (auto simp: ordered_def keys_def)
  then have "Min (insert (fst e) (keys m')) = fst e"
    by (intro Min_eqI) (auto simp: keys_def less_imp_le)
  with Cons show ?thesis by (simp add: keys_Cons)
qed

section \<open>Facts about the member functions\<close>

lemma get_run:
  "body (get k out) m = (case map_of m k of None \<Rightarrow> ((False, out), m) | Some w \<Rightarrow> ((True, w), m))"
proof (cases "map_of m k")
  case None
  then show ?thesis
    using map_find_absent [of m k] by (simp add: get_def map_end_def)
next
  case (Some w)
  then show ?thesis
    using found_value [of k m w] by (auto simp: get_def map_end_def Let_def)
qed


lemma insertOrReplace3_run:
  "body (insertOrReplace3 k nv ov vars) m =
     (if k \<in> keys m
      then ((False, vars(ov := second m (map_find k m))),
            set_second m (map_find k m) ((vars(ov := second m (map_find k m))) nv))
      else ((True, vars), place (k, vars nv) m))"
  by (simp add: insertOrReplace3_def map_insert_def map_end_def map_find_end_iff Let_def)


lemma set_second_same: "set_second m it (second m it) = m"
  by (simp add: set_second_def second_def)

lemma insertOrReplace3_same_variable:
  "map_of m k = Some w \<Longrightarrow>
   body (insertOrReplace3 k x x vars) m = ((False, vars(x := w)), m)"
  using found_value [of k m w] map_find_end_iff [of k m]
  by (auto simp: insertOrReplace3_run set_second_same)



lemma getValues_loop_run:
  "it \<le> length m \<Longrightarrow> b \<le> e \<Longrightarrow> e \<le> length buf \<Longrightarrow>
   getValues_loop m it buf b e =
     Some (take b buf @ take (min (length m - it) (e - b)) (drop it m)
             @ drop (b + min (length m - it) (e - b)) buf,
           b + min (length m - it) (e - b))"
proof (induction "length m - it" arbitrary: it buf b)
  case 0
  then have "it = length m" by simp
  then show ?case
    by (subst getValues_loop.simps) (simp add: map_end_def)
next
  case (Suc d)
  then have lt: "it < length m" by simp
  show ?case
  proof (cases "b = e")
    case True
    then show ?thesis
      by (subst getValues_loop.simps) simp
  next
    case False
    with Suc.prems have be: "b < e" and bl: "b < length buf" by simp_all
    let ?buf = "buf[b := m ! it]"
    let ?n = "min (length m - Suc it) (e - Suc b)"
    have d: "d = length m - Suc it" using Suc.hyps(2) by simp
    have step: "getValues_loop m it buf b e = getValues_loop m (Suc it) ?buf (Suc b) e"
      using False lt by (subst getValues_loop.simps) (simp add: map_end_def)
    have ih: "getValues_loop m (Suc it) ?buf (Suc b) e =
        Some (take (Suc b) ?buf @ take ?n (drop (Suc it) m) @ drop (Suc b + ?n) ?buf, Suc b + ?n)"
      using Suc.hyps(1) [OF d, of "Suc b" ?buf] lt be Suc.prems(3) by simp
    have n: "min (length m - it) (e - b) = Suc ?n" using lt be by simp
    have t: "take (Suc b) ?buf = take b buf @ [m ! it]"
      using bl by (simp add: take_Suc_conv_app_nth)
    have dr: "drop (Suc b + ?n) ?buf = drop (Suc b + ?n) buf"
      by (simp add: drop_update_cancel)
    have src: "take (Suc ?n) (drop it m) = m ! it # take ?n (drop (Suc it) m)"
      using lt by (simp add: Cons_nth_drop_Suc [symmetric])
    show ?thesis
      unfolding step ih n t dr src by simp
  qed
qed

text \<open>
  The mutators keep the keys strictly ascending, and a call on a free mutex runs the
  critical section and leaves the mutex free.
\<close>

lemma ordered_set_second: "ordered m \<Longrightarrow> ordered (set_second m it v)"
  by (simp add: ordered_def map_fst_set_second)

lemma ordered_map_insert: "ordered m \<Longrightarrow> ordered (snd (map_insert (k, v) m))"
  by (simp add: map_insert_def map_end_def map_find_end_iff ordered_place)

lemma ordered_kept:
  fixes m :: "('k::linorder, 'v) std_map"
  assumes "ordered m"
  shows "ordered (snd (body (getAndEraseHead out) m))"
    and "ordered (snd (body eraseHead m))"
    and "ordered (snd (body (insert_ts k v) m))"
    and "ordered (snd (body (erase k) m))"
    and "ordered (snd (body clear m))"
    and "ordered (snd (body (putIfAbsent k v) m))"
    and "ordered (snd (body (remove_ts k v) m))"
    and "ordered (snd (body (replace2 k v) m))"
    and "ordered (snd (body (replace3 k v v') m))"
    and "ordered (snd (body (insertOrReplace2 k v) m))"
    and "ordered (snd (body (insertOrReplace3 k nv ov vars) m))"
proof -
  note pres = assms ordered_erase_at ordered_set_second ordered_map_insert
  show "ordered (snd (body (getAndEraseHead out) m))"
    by (simp add: getAndEraseHead_def Let_def pres)
  show "ordered (snd (body eraseHead m))"
    by (simp add: eraseHead_def Let_def pres)
  show "ordered (snd (body (insert_ts k v) m))"
    by (simp add: insert_ts_def pres)
  show "ordered (snd (body (erase k) m))"
    by (simp add: erase_def map_erase_key_def Let_def pres)
  show "ordered (snd (body clear m))"
    by (simp add: clear_def ordered_def)
  show "ordered (snd (body (putIfAbsent k v) m))"
    by (simp add: putIfAbsent_def Let_def pres)
  show "ordered (snd (body (remove_ts k v) m))"
    by (simp add: remove_ts_def Let_def pres)
  show "ordered (snd (body (replace2 k v) m))"
    by (simp add: replace2_def Let_def pres)
  show "ordered (snd (body (replace3 k v v') m))"
    by (simp add: replace3_def Let_def pres)
  show "ordered (snd (body (insertOrReplace2 k v) m))"
    by (simp add: insertOrReplace2_def Let_def pres)
  show "ordered (snd (body (insertOrReplace3 k nv ov vars) m))"
    by (simp add: insertOrReplace3_run pres ordered_place)
qed

lemma invoke_free:
  "invoke f \<lparr>internal_map = m, mutex = free_mutex\<rparr> =
     Some (fst (body f m), \<lparr>internal_map = snd (body f m), mutex = free_mutex\<rparr>)"
  by (cases "lock f") (simp_all add: invoke_def free_mutex_def split: prod.split)

section \<open>The operations\<close>

text \<open>
  Claim C1 says that \<open>getAndEraseHead\<close> and \<open>eraseHead\<close> hold the mutex in exclusive
  mode. Both construct a \<open>std::shared_lock\<close>, where every other member function that
  changes the container (\<open>insert\<close>, \<open>erase\<close>, ...) constructs a \<open>std::unique_lock\<close>.
  With one shared holder already inside, a call of either function is admitted and
  erases the head, while \<open>erase\<close> waits.
\<close>

theorem head_poppers_take_shared_lock:
  "lock (getAndEraseHead (0::nat) :: ((nat, nat) std_map, bool \<times> nat) member) = shared_lock \<and>
   lock (eraseHead :: ((nat, nat) std_map, bool) member) = shared_lock \<and>
   lock (insert_ts (1::nat) (10::nat)) = unique_lock \<and>
   lock (erase (1::nat) :: ((nat, nat) std_map, nat) member) = unique_lock \<and>
   acquire shared_lock free_mutex = Some \<lparr>readers = 1, writer = False\<rparr> \<and>
   invoke (getAndEraseHead (0::nat))
       \<lparr>internal_map = [(1::nat, 10::nat), (2, 20)], mutex = \<lparr>readers = 1, writer = False\<rparr>\<rparr>
     = Some ((True, 10), \<lparr>internal_map = [(2, 20)], mutex = \<lparr>readers = 1, writer = False\<rparr>\<rparr>) \<and>
   invoke eraseHead
       \<lparr>internal_map = [(1::nat, 10::nat), (2, 20)], mutex = \<lparr>readers = 1, writer = False\<rparr>\<rparr>
     = Some (True, \<lparr>internal_map = [(2, 20)], mutex = \<lparr>readers = 1, writer = False\<rparr>\<rparr>) \<and>
   invoke (erase (1::nat))
       \<lparr>internal_map = [(1::nat, 10::nat), (2, 20)], mutex = \<lparr>readers = 1, writer = False\<rparr>\<rparr>
     = None"
  by (simp add: getAndEraseHead_def eraseHead_def insert_ts_def erase_def free_mutex_def
      invoke_def map_empty_def map_begin_def second_def map_erase_at_def)

text \<open>
  Claim C2. For every key and every container, \<open>contains(key)\<close> returns true exactly
  when the key is absent (the iterator returned by \<open>find\<close> equals \<open>end()\<close>), and the
  container is returned as it was.
\<close>

theorem contains_true_iff_absent:
  "body (contains k) m = (k \<notin> keys m, m)"
  by (simp add: contains_def map_end_def map_find_end_iff)

theorem contains_true_iff_absent_witness:
  "fst (body (contains (1::nat)) [(1, 10::nat)]) = False \<and>
   fst (body (contains (2::nat)) [(1, 10::nat)]) = True"
  using contains_true_iff_absent [of "1::nat" "[(1, 10::nat)]"]
    contains_true_iff_absent [of "2::nat" "[(1, 10::nat)]"]
  by (simp add: keys_def)

text \<open>
  Claim C3. \<open>insert(key, value)\<close> returns true exactly when the key was absent. In that
  case the container afterwards holds the old entries and the new pair; when the key
  was present the container is unchanged. A second \<open>insert(k, v2)\<close> after \<open>insert(k, v)\<close>
  returns false and changes nothing, and where the first call inserted, \<open>get(k)\<close>
  yields \<open>v\<close>.
\<close>

theorem insert_only_if_absent:
  fixes k :: "'k::linorder"
  shows
  "fst (body (insert_ts k v) m) = (k \<notin> keys m) \<and>
   (k \<notin> keys m \<longrightarrow>
      map_of (snd (body (insert_ts k v) m)) = (map_of m)(k \<mapsto> v) \<and>
      set (snd (body (insert_ts k v) m)) = insert (k, v) (set m)) \<and>
   (k \<in> keys m \<longrightarrow> snd (body (insert_ts k v) m) = m) \<and>
   (let m1 = snd (body (insert_ts k v) m);
        (r2, m2) = body (insert_ts k v2) m1
    in r2 = False \<and> m2 = m1 \<and> (k \<notin> keys m \<longrightarrow> body (get k out) m2 = ((True, v), m2)))"
proof -
  have ret: "fst (body (insert_ts k v) m) = (k \<notin> keys m)"
    by (simp add: insert_ts_def map_insert_def map_end_def map_find_end_iff)
  have absent: "snd (body (insert_ts k v) m) = place (k, v) m" if "k \<notin> keys m"
    using that by (simp add: insert_ts_def map_insert_def map_end_def map_find_end_iff)
  have present: "snd (body (insert_ts k v) m) = m" if "k \<in> keys m"
    using that by (simp add: insert_ts_def map_insert_def map_end_def map_find_end_iff)
  let ?m1 = "snd (body (insert_ts k v) m)"
  have in1: "k \<in> keys ?m1"
    by (cases "k \<in> keys m") (simp_all add: absent present keys_place)
  then have again: "body (insert_ts k v2) ?m1 = (False, ?m1)"
    by (simp add: insert_ts_def [of k v2] map_insert_def map_end_def map_find_end_iff)
  have first_wins: "body (get k out) ?m1 = ((True, v), ?m1)" if a: "k \<notin> keys m"
  proof -
    have "map_of ?m1 k = Some v"
      using map_of_place [OF a, of v] by (simp add: absent [OF a])
    then show ?thesis by (simp add: get_run)
  qed
  have twice: "(let m1 = ?m1; (r2, m2) = body (insert_ts k v2) m1
    in r2 = False \<and> m2 = m1 \<and> (k \<notin> keys m \<longrightarrow> body (get k out) m2 = ((True, v), m2)))"
    unfolding Let_def again using first_wins by simp
  have added: "map_of ?m1 = (map_of m)(k \<mapsto> v) \<and> set ?m1 = insert (k, v) (set m)"
    if a: "k \<notin> keys m"
    using a by (simp add: absent [OF a] map_of_place set_place)
  from ret added present twice show ?thesis by blast
qed

theorem insert_only_if_absent_witness:
  "(3::nat) \<notin> keys [(1, 10::nat), (5, 50)] \<and>
   body (insert_ts 3 30) [(1, 10::nat), (5, 50)] = (True, [(1::nat, 10), (3, 30), (5, 50)]) \<and>
   (5::nat) \<in> keys [(1, 10::nat), (5, 50)] \<and>
   body (insert_ts 5 30) [(1, 10::nat), (5, 50)] = (False, [(1::nat, 10), (5, 50)]) \<and>
   body (get 3 0) (snd (body (insert_ts 3 31) (snd (body (insert_ts 3 30) [(1, 10::nat), (5, 50)]))))
     = ((True, 30), [(1::nat, 10), (3, 30), (5, 50)])"
  using insert_only_if_absent [of "3::nat" "30::nat" "[(1, 10), (5, 50)]" 31 0]
    insert_only_if_absent [of "5::nat" "30::nat" "[(1, 10), (5, 50)]" 31 0]
  by (simp add: keys_def insert_ts_def map_insert_def map_end_def get_def second_def)

text \<open>
  Claim C4. If the key is absent, \<open>putIfAbsent(key, value)\<close> returns \<open>value\<close> and the
  container afterwards holds the old entries and the new pair. If the key is present
  with value \<open>w\<close>, it returns \<open>w\<close> and the container is unchanged. Exactly one of the
  two cases applies, and the container changes exactly when the key was absent.
\<close>

theorem putIfAbsent_branches:
  fixes k :: "'k::linorder"
  shows
  "(k \<notin> keys m \<longrightarrow>
      fst (body (putIfAbsent k v) m) = v \<and>
      map_of (snd (body (putIfAbsent k v) m)) = (map_of m)(k \<mapsto> v) \<and>
      set (snd (body (putIfAbsent k v) m)) = insert (k, v) (set m)) \<and>
   (map_of m k = Some w \<longrightarrow> body (putIfAbsent k v) m = (w, m)) \<and>
   (k \<notin> keys m) \<noteq> (\<exists>w. map_of m k = Some w) \<and>
   (snd (body (putIfAbsent k v) m) \<noteq> m) = (k \<notin> keys m)"
proof -
  have absent: "body (putIfAbsent k v) m = (v, place (k, v) m)" if "k \<notin> keys m"
    using that by (simp add: putIfAbsent_def map_insert_def map_end_def map_find_end_iff)
  have present: "body (putIfAbsent k v) m = (w, m)" if "map_of m k = Some w" for w
  proof -
    from that have f: "map_find k m \<noteq> length m"
      using map_find_absent [of m k] by simp
    with map_find_present [OF f] that show ?thesis
      by (simp add: putIfAbsent_def map_end_def second_def)
  qed
  have dich: "(k \<notin> keys m) \<noteq> (\<exists>w. map_of m k = Some w)"
    by (simp add: keys_map_of)
  have changed: "(snd (body (putIfAbsent k v) m) \<noteq> m) = (k \<notin> keys m)"
  proof (cases "k \<in> keys m")
    case True
    then obtain w where "map_of m k = Some w" by (auto simp: keys_map_of)
    from present [OF this] True show ?thesis by simp
  next
    case False
    have "length (place (k, v) m) \<noteq> length m" by (simp add: length_place)
    then have "place (k, v) m \<noteq> m" by auto
    with absent False show ?thesis by simp
  qed
  from absent present dich changed show ?thesis
    by (simp add: map_of_place set_place)
qed

theorem putIfAbsent_branches_witness:
  "(7::nat) \<notin> keys ([]::(nat \<times> nat) list) \<and>
   body (putIfAbsent (7::nat) (70::nat)) [] = (70, [(7, 70)]) \<and>
   map_of [(7::nat, 70::nat)] 7 = Some 70 \<and>
   body (putIfAbsent (7::nat) (71::nat)) [(7, 70)] = (70, [(7, 70)])"
  using putIfAbsent_branches [of "7::nat" "[]" "70::nat" 0]
    putIfAbsent_branches [of "7::nat" "[(7, 70::nat)]" "71::nat" 70]
  by (simp add: keys_def putIfAbsent_def map_insert_def map_end_def second_def)

text \<open>
  Claim C5. On a non-empty container (keys strictly ascending) \<open>getAndEraseHead\<close>
  returns true with the value of the least key, and the container afterwards is the
  old one without that entry: every other key keeps its value. On an empty container
  it returns false and the container stays empty. From keys 1, 2, 3 it returns the
  value of key 1 and leaves keys 2 and 3.
\<close>

theorem getAndEraseHead_pops_minimum:
  fixes m :: "('k::linorder, 'v) std_map"
  shows
  "(ordered m \<and> \<not> map_empty m \<longrightarrow>
      (\<exists>v m'. body (getAndEraseHead out) m = ((True, v), m') \<and>
         map_of m (Min (keys m)) = Some v \<and>
         map_of m' = (map_of m)(Min (keys m) := None) \<and>
         set m' = set m - {(Min (keys m), v)} \<and>
         ordered m')) \<and>
   (map_empty m \<longrightarrow> body (getAndEraseHead out) m = ((False, out), m) \<and> map_empty (snd (body (getAndEraseHead out) m)))"
proof -
  have nonempty: "\<exists>v m'. body (getAndEraseHead out) m = ((True, v), m') \<and>
         map_of m (Min (keys m)) = Some v \<and>
         map_of m' = (map_of m)(Min (keys m) := None) \<and>
         set m' = set m - {(Min (keys m), v)} \<and>
         ordered m'" if ord: "ordered m" and ne: "m \<noteq> []"
  proof -
    from ne obtain k v m' where m: "m = (k, v) # m'" by (cases m) auto
    from head_is_Min [OF ord ne] m have mn: "Min (keys m) = k" by simp
    from ord have dist: "distinct (map fst m)" by (rule ordered_distinct)
    with m have notin: "k \<notin> fst ` set m'" by simp
    have run: "body (getAndEraseHead out) m = ((True, v), m')"
      by (simp add: m getAndEraseHead_def map_empty_def map_begin_def second_def map_erase_at_def)
    have look: "map_of m k = Some v" by (simp add: m)
    from notin have "map_of m' k = None" by (simp add: map_of_eq_None_iff)
    then have rest: "map_of m' = (map_of m)(k := None)"
      by (auto simp: m fun_eq_iff)
    from notin have "(k, v) \<notin> set m'" by force
    then have entries: "set m' = set m - {(k, v)}" by (auto simp: m)
    from ordered_erase_at [OF ord, of 0] have "ordered m'"
      by (simp add: m map_erase_at_def)
    with run look rest entries mn show ?thesis by simp
  qed
  have empty: "body (getAndEraseHead out) [] = ((False, out), [])"
    by (simp add: getAndEraseHead_def map_empty_def)
  from nonempty empty show ?thesis
    by (auto simp: map_empty_def)
qed

theorem getAndEraseHead_pops_minimum_witness:
  "ordered [(1::nat, 10::nat), (2, 20), (3, 30)] \<and>
   \<not> map_empty [(1::nat, 10::nat), (2, 20), (3, 30)] \<and>
   body (getAndEraseHead 0) [(1::nat, 10::nat), (2, 20), (3, 30)] =
     ((True, 10), [(2, 20), (3, 30)]) \<and>
   map_empty ([]::(nat \<times> nat) list) \<and>
   body (getAndEraseHead 0) ([]::(nat \<times> nat) list) = ((False, 0), [])"
  using getAndEraseHead_pops_minimum [of "[(1::nat, 10::nat), (2, 20), (3, 30)]" 0]
    getAndEraseHead_pops_minimum [of "[]::(nat \<times> nat) list" 0]
  by (simp add: ordered_def map_empty_def getAndEraseHead_def map_begin_def second_def
      map_erase_at_def)

text \<open>
  Claim C6. \<open>remove(key, expected)\<close> returns true exactly when the key is present with
  value \<open>expected\<close>; then (keys strictly ascending) the entry is gone and every other
  key keeps its value. Otherwise the container is unchanged.
\<close>

theorem remove_compare_and_delete:
  fixes m :: "('k::linorder, 'v) std_map"
  shows
  "fst (body (remove_ts k expected) m) = (map_of m k = Some expected) \<and>
   (ordered m \<and> map_of m k = Some expected \<longrightarrow>
      map_of (snd (body (remove_ts k expected) m)) = (map_of m)(k := None) \<and>
      ordered (snd (body (remove_ts k expected) m))) \<and>
   (map_of m k \<noteq> Some expected \<longrightarrow> snd (body (remove_ts k expected) m) = m)"
proof -
  have run: "body (remove_ts k expected) m =
      (if map_of m k = Some expected then (True, map_erase_at (map_find k m) m) else (False, m))"
    using found_value [of k m expected]
    by (auto simp: remove_ts_def map_end_def Let_def)
  have gone: "map_of (map_erase_at (map_find k m) m) = (map_of m)(k := None)"
    if "ordered m" and "map_of m k = Some expected"
    using that map_of_erase_at [of m k] ordered_distinct [of m] found_iff [of k m] by auto
  from run gone show ?thesis
    by (simp add: ordered_erase_at)
qed

theorem remove_compare_and_delete_witness:
  "ordered [(1::nat, 10::nat), (2, 20)] \<and> map_of [(1::nat, 10::nat), (2, 20)] 2 = Some 20 \<and>
   body (remove_ts 2 20) [(1::nat, 10::nat), (2, 20)] = (True, [(1, 10)]) \<and>
   map_of [(1::nat, 10::nat), (2, 20)] 2 \<noteq> Some 21 \<and>
   body (remove_ts 2 21) [(1::nat, 10::nat), (2, 20)] = (False, [(1, 10), (2, 20)]) \<and>
   map_of [(1::nat, 10::nat), (2, 20)] 3 \<noteq> Some 20 \<and>
   body (remove_ts 3 20) [(1::nat, 10::nat), (2, 20)] = (False, [(1, 10), (2, 20)])"
  using remove_compare_and_delete [of 2 20 "[(1::nat, 10::nat), (2, 20)]"]
    remove_compare_and_delete [of 2 21 "[(1::nat, 10::nat), (2, 20)]"]
    remove_compare_and_delete [of 3 20 "[(1::nat, 10::nat), (2, 20)]"]
  by (simp add: ordered_def remove_ts_def map_end_def second_def map_erase_at_def)

text \<open>
  Claim C7. The three-argument \<open>replace(key, expected, newV)\<close> returns true exactly
  when the key is present with value \<open>expected\<close>; then the key maps to \<open>newV\<close>, the keys
  are the same and every other key keeps its value. Otherwise the container is
  unchanged.
\<close>

theorem replace_compare_and_swap:
  "fst (body (replace3 k expected newV) m) = (map_of m k = Some expected) \<and>
   (map_of m k = Some expected \<longrightarrow>
      map_of (snd (body (replace3 k expected newV) m)) = (map_of m)(k \<mapsto> newV) \<and>
      map fst (snd (body (replace3 k expected newV) m)) = map fst m) \<and>
   (map_of m k \<noteq> Some expected \<longrightarrow> snd (body (replace3 k expected newV) m) = m)"
proof -
  have run: "body (replace3 k expected newV) m =
      (if map_of m k = Some expected then (True, set_second m (map_find k m) newV) else (False, m))"
    using found_value [of k m expected]
    by (auto simp: replace3_def map_end_def Let_def)
  have swapped: "map_of (set_second m (map_find k m) newV) = (map_of m)(k \<mapsto> newV)"
    if "map_of m k = Some expected"
    using that map_of_set_second [of k m newV] found_iff [of k m] by auto
  from run swapped show ?thesis
    by (simp add: map_fst_set_second)
qed

theorem replace_compare_and_swap_witness:
  "map_of [(1::nat, 10::nat), (2, 20)] 2 = Some 20 \<and>
   body (replace3 2 20 25) [(1::nat, 10::nat), (2, 20)] = (True, [(1, 10), (2, 25)]) \<and>
   map_of [(1::nat, 10::nat), (2, 20)] 2 \<noteq> Some 21 \<and>
   body (replace3 2 21 25) [(1::nat, 10::nat), (2, 20)] = (False, [(1, 10), (2, 20)]) \<and>
   map_of [(1::nat, 10::nat), (2, 20)] 3 \<noteq> Some 20 \<and>
   body (replace3 3 20 25) [(1::nat, 10::nat), (2, 20)] = (False, [(1, 10), (2, 20)])"
  using replace_compare_and_swap [of 2 20 25 "[(1::nat, 10::nat), (2, 20)]"]
    replace_compare_and_swap [of 2 21 25 "[(1::nat, 10::nat), (2, 20)]"]
    replace_compare_and_swap [of 3 20 25 "[(1::nat, 10::nat), (2, 20)]"]
  by (simp add: replace3_def map_end_def second_def set_second_def)



text \<open>
  Claim C9. For a destination range \<open>[dbegin, dend)\<close> inside the buffer, \<open>getValues\<close>
  returns; with \<open>n\<close> the smaller of the number of entries and the capacity
  \<open>dend - dbegin\<close>, the buffer afterwards holds the first \<open>n\<close> entries of the container,
  in key order, from position \<open>dbegin\<close> on and is otherwise as before; the returned
  position is \<open>dbegin + n\<close>; the container is unchanged.
\<close>

theorem getValues_copies_prefix:
  "dbegin \<le> dend \<and> dend \<le> length buf \<longrightarrow>
   body (getValues buf dbegin dend) m =
     (Some (take dbegin buf @ take (min (map_size m) (dend - dbegin)) m
              @ drop (dbegin + min (map_size m) (dend - dbegin)) buf,
            dbegin + min (map_size m) (dend - dbegin)),
      m) \<and>
   (ordered m \<longrightarrow> ordered (take (min (map_size m) (dend - dbegin)) m))"
  using getValues_loop_run [of 0 m dbegin dend buf]
  by (simp add: getValues_def map_begin_def map_size_def ordered_take)

theorem getValues_copies_prefix_witness:
  "(1::nat) \<le> 3 \<and> 3 \<le> length [(0, 0), (0, 0), (0, 0), (0::nat, 0::nat)] \<and>
   ordered [(1::nat, 10::nat), (2, 20), (3, 30)] \<and>
   body (getValues [(0, 0), (0, 0), (0, 0), (0, 0)] 1 3) [(1::nat, 10::nat), (2, 20), (3, 30)] =
     (Some ([(0, 0), (1, 10), (2, 20), (0, 0)], 3), [(1, 10), (2, 20), (3, 30)]) \<and>
   body (getValues [(0, 0), (0, 0), (0, 0), (0, 0)] 0 4) [(1::nat, 10::nat), (2, 20), (3, 30)] =
     (Some ([(1, 10), (2, 20), (3, 30), (0, 0)], 3), [(1, 10), (2, 20), (3, 30)])"
  using getValues_copies_prefix [of 1 3 "[(0, 0), (0, 0), (0, 0), (0::nat, 0::nat)]"
      "[(1::nat, 10::nat), (2, 20), (3, 30)]"]
    getValues_copies_prefix [of 0 4 "[(0, 0), (0, 0), (0, 0), (0::nat, 0::nat)]"
      "[(1::nat, 10::nat), (2, 20), (3, 30)]"]
  by (simp add: map_size_def ordered_def)

text \<open>
  Claim C10. When \<open>get\<close>, \<open>getHead\<close>, \<open>getTail\<close> or \<open>getAndEraseHead\<close> returns false,
  the output reference holds the value the caller passed in.
\<close>

theorem output_kept_on_absence:
  "(fst (fst (body (get k out) m)) = False \<longrightarrow> snd (fst (body (get k out) m)) = out) \<and>
   (fst (fst (body (getHead out) m)) = False \<longrightarrow> snd (fst (body (getHead out) m)) = out) \<and>
   (fst (fst (body (getTail out) m)) = False \<longrightarrow> snd (fst (body (getTail out) m)) = out) \<and>
   (fst (fst (body (getAndEraseHead out) m)) = False \<longrightarrow>
      snd (fst (body (getAndEraseHead out) m)) = out)"
  by (simp add: get_def getHead_def getTail_def getAndEraseHead_def Let_def)

theorem output_kept_on_absence_witness:
  "body (get (2::nat) (9::nat)) [(1, 10)] = ((False, 9), [(1, 10)]) \<and>
   body (getHead (9::nat)) ([]::(nat \<times> nat) list) = ((False, 9), []) \<and>
   body (getTail (9::nat)) ([]::(nat \<times> nat) list) = ((False, 9), []) \<and>
   body (getAndEraseHead (9::nat)) ([]::(nat \<times> nat) list) = ((False, 9), [])"
  using output_kept_on_absence [of "2::nat" "9::nat" "[(1, 10)]"]
    output_kept_on_absence [of "2::nat" "9::nat" "[]"]
  by (simp add: get_def getHead_def getTail_def getAndEraseHead_def map_end_def map_empty_def)

end
